theory Spec2Isabelle
  imports Main
begin

section \<open>The voice-recognition control of src/components/VoiceRecognition.tsx\<close>

text \<open>
  The component keeps three pieces of React state (\<open>isListening\<close>, \<open>isProcessing\<close>,
  \<open>error\<close>) and talks to its parent through the two props \<open>onVoiceResult\<close> and
  \<open>onListeningChange\<close>. The model below threads one record through every handler of the
  component. A state setter is an assignment to that record, in the order the source
  calls it; a call of a prop callback is appended to the field \<open>notified\<close> together with
  the two flags as they stand at the moment of the call; \<open>setTimeout\<close> appends a task to
  the field \<open>timers\<close>; a call into a speech engine is appended to the field \<open>calls\<close>.
\<close>

subsection \<open>Numbers\<close>

text \<open>A JavaScript number that \<open>Math.random()\<close> can return is a double: the pair
  \<open>(m, e)\<close> stands for \<open>m * 2^-e\<close>. Every double below 1 is such a pair with
  \<open>m < 2^53\<close> and \<open>e \<le> 1074\<close>; it is below 1 when \<open>m < 2^e\<close>.\<close>

type_synonym double = "nat \<times> nat"

definition unitDouble :: "double \<Rightarrow> bool" where
  "unitDouble d = (case d of (m, e) \<Rightarrow> m < 2 ^ 53 \<and> e \<le> 1074 \<and> m < 2 ^ e)"

text \<open>The number of binary digits of \<open>n\<close> beyond the 53 a double keeps.\<close>

function excess :: "nat \<Rightarrow> nat" where
  "excess n = (if n < 2 ^ 53 then 0 else Suc (excess (n div 2)))"
  by pat_completeness auto

termination
proof (relation "measure (\<lambda>n. n)")
  show "wf (measure (\<lambda>n::nat. n))"
    by simp
next
  fix n :: nat
  assume "\<not> n < 2 ^ 53"
  then have "0 < n"
    by simp
  then show "(n div 2, n) \<in> measure (\<lambda>n. n)"
    by simp
qed

declare excess.simps [simp del]

text \<open>Rounding to 53 significant digits, to nearest, ties to the even significand: what
  a multiplication of doubles does to its exact product.\<close>

definition round53 :: "nat \<Rightarrow> nat" where
  "round53 n =
    (let sh = excess n; q = n div 2 ^ sh; r = n mod 2 ^ sh
     in (if 2 ^ sh < 2 * r \<or> (2 * r = 2 ^ sh \<and> odd q) then q + 1 else q) * 2 ^ sh)"

text \<open>\<open>Math.floor(d * n)\<close> for a double \<open>d = (m, e)\<close> and a small whole number \<open>n\<close>
  (an array length): the exact product is \<open>m * n * 2^-e\<close>, the multiplication rounds
  its significand \<open>m * n\<close>, and the floor drops the digits below the point.\<close>

definition floorTimes :: "double \<Rightarrow> nat \<Rightarrow> nat" where
  "floorTimes d n = (case d of (m, e) \<Rightarrow> round53 (m * n) div 2 ^ e)"

subsection \<open>Props and environment\<close>

datatype platform = Web | Mobile

text \<open>The outcome of \<open>await Voice.start('id-ID')\<close>: it resolves, or it rejects with an
  exception \<open>e\<close> whose \<open>e.message\<close> is a string or is missing.\<close>

datatype start_outcome = Resolved | Rejected "string option"

record props =
  isEnabled :: bool
  os :: platform
  hasSpeechRecognition :: bool
  voiceStart :: start_outcome
  random :: "nat \<Rightarrow> double"

text \<open>\<open>os\<close> is \<open>Platform.OS\<close> (\<open>Web\<close> for \<open>'web'\<close>, \<open>Mobile\<close> for anything else),
  \<open>hasSpeechRecognition\<close> is the test
  \<open>'webkitSpeechRecognition' in window || 'SpeechRecognition' in window\<close>, and
  \<open>random p n\<close> is the value of the \<open>n\<close>-th call of \<open>Math.random()\<close>.\<close>

subsection \<open>State\<close>

datatype callback = OnListeningChange bool | OnVoiceResult "string option"

text \<open>The argument of \<open>OnVoiceResult\<close> is \<open>None\<close> for JavaScript's \<open>undefined\<close>, which
  is what an array read out of range gives.\<close>

type_synonym notice = "callback \<times> bool \<times> bool"

datatype engine_call =
    NewRecognition string bool nat
  | RecognitionStart
  | VoiceStart string
  | VoiceStop

datatype timer_kind = ListenDone | ProcessDone

type_synonym timer = "nat \<times> timer_kind"

record state =
  isListening :: bool
  isProcessing :: bool
  error :: "string option"
  now :: nat
  timers :: "timer list"
  draws :: nat
  calls :: "engine_call list"
  notified :: "notice list"

definition initial :: state where
  "initial = \<lparr>isListening = False, isProcessing = False, error = None, now = 0,
     timers = [], draws = 0, calls = [], notified = []\<rparr>"

definition emit :: "callback \<Rightarrow> state \<Rightarrow> state" where
  "emit c s = s\<lparr>notified := notified s @ [(c, isListening s, isProcessing s)]\<rparr>"

definition setTimeout :: "timer_kind \<Rightarrow> nat \<Rightarrow> state \<Rightarrow> state" where
  "setTimeout k ms s = s\<lparr>timers := timers s @ [(now s + ms, k)]\<rparr>"

definition engine :: "engine_call list \<Rightarrow> state \<Rightarrow> state" where
  "engine cs s = s\<lparr>calls := calls s @ cs\<rparr>"

subsection \<open>Constants\<close>

definition VOICE_RESPONSES :: "string list" where
  "VOICE_RESPONSES =
    [''bagaimana cara ganti oli'',
     ''kenapa mesin overheat'',
     ''cara check aki mobil'',
     ''suara mesin kasar'',
     ''rem blong penyebabnya'',
     ''ac mobil tidak dingin'']"

text \<open>An array read \<open>xs[i]\<close> of JavaScript: \<open>undefined\<close> outside the array.\<close>

definition js_index :: "'a list \<Rightarrow> int \<Rightarrow> 'a option" where
  "js_index xs i = (if 0 \<le> i \<and> i < int (length xs) then Some (xs ! nat i) else None)"

text \<open>\<open>m || 'Unknown error'\<close>: a missing and an empty message are both falsy.\<close>

definition orUnknown :: "string option \<Rightarrow> string" where
  "orUnknown m = (case m of None \<Rightarrow> ''Unknown error''
                  | Some d \<Rightarrow> if d = [] then ''Unknown error'' else d)"

text \<open>\<open>e.error?.message\<close>: the outer option is \<open>e.error\<close>, the inner one its \<open>message\<close>.\<close>

definition optMessage :: "string option option \<Rightarrow> string option" where
  "optMessage e = (case e of None \<Rightarrow> None | Some m \<Rightarrow> m)"

subsection \<open>Handlers of the native engine (lines 62 to 75)\<close>

text \<open>\<open>e.value\<close> is missing (\<open>None\<close>) or a list of transcripts.\<close>

definition onSpeechResults :: "string list option \<Rightarrow> state \<Rightarrow> state" where
  "onSpeechResults v s =
    (let s1 = emit (OnListeningChange False) (s\<lparr>isListening := False, isProcessing := False\<rparr>)
     in case v of
          None \<Rightarrow> s1
        | Some xs \<Rightarrow> if length xs > 0 then emit (OnVoiceResult (js_index xs 0)) s1 else s1)"

definition onSpeechError :: "string option option \<Rightarrow> state \<Rightarrow> state" where
  "onSpeechError e s =
    emit (OnListeningChange False)
      (s\<lparr>isListening := False, isProcessing := False,
         error := Some (''Voice error: '' @ orUnknown (optMessage e))\<rparr>)"

subsection \<open>Handlers of the browser engine (lines 122 to 140)\<close>

text \<open>\<open>event.results\<close> is missing or a list of results, each a list of alternatives; an
  alternative is an object (always truthy) whose \<open>transcript\<close> is a string.\<close>

definition onresult :: "string list list option \<Rightarrow> state \<Rightarrow> state" where
  "onresult rs s =
    (let s1 = emit (OnListeningChange False) (s\<lparr>isListening := False, isProcessing := False\<rparr>)
     in case rs of
          None \<Rightarrow> s1
        | Some [] \<Rightarrow> s1
        | Some ([] # _) \<Rightarrow> s1
        | Some ((t # _) # _) \<Rightarrow> emit (OnVoiceResult (Some t)) s1)"

definition onerror :: "string \<Rightarrow> state \<Rightarrow> state" where
  "onerror d s =
    emit (OnListeningChange False)
      (s\<lparr>isListening := False, isProcessing := False, error := Some (''Voice error: '' @ d)\<rparr>)"

definition onend :: "state \<Rightarrow> state" where
  "onend s = emit (OnListeningChange False) (s\<lparr>isListening := False, isProcessing := False\<rparr>)"

subsection \<open>The two chained timers of the simulation (lines 144 to 153)\<close>

text \<open>The index of the phrase is
  \<open>Math.floor(Math.random() * VOICE_RESPONSES.length)\<close>: a product of doubles, rounded
  as \<open>floorTimes\<close> says, so that a draw just below 5/6 gives the index 5.\<close>

fun fire :: "props \<Rightarrow> timer_kind \<Rightarrow> state \<Rightarrow> state" where
  "fire p ListenDone s =
    setTimeout ProcessDone 1000 (s\<lparr>isListening := False, isProcessing := True\<rparr>)"
| "fire p ProcessDone s =
    (let randomResponse =
           js_index VOICE_RESPONSES
             (int (floorTimes (random p (draws s)) (length VOICE_RESPONSES)));
         s1 = emit (OnVoiceResult randomResponse) (s\<lparr>draws := Suc (draws s)\<rparr>)
     in emit (OnListeningChange False) (s1\<lparr>isProcessing := False\<rparr>))"

subsection \<open>startListening, stopListening, toggleListening (lines 108 to 188)\<close>

definition startListening :: "props \<Rightarrow> state \<Rightarrow> state" where
  "startListening p s =
    (let s1 = s\<lparr>error := None\<rparr> in
     if \<not> isEnabled p then s1
     else
       let s2 = emit (OnListeningChange True) (s1\<lparr>isListening := True, isProcessing := False\<rparr>)
       in case os p of
            Web \<Rightarrow>
              if hasSpeechRecognition p
              then engine [NewRecognition ''id-ID'' False 1, RecognitionStart] s2
              else setTimeout ListenDone 3000 s2
          | Mobile \<Rightarrow>
              (let s3 = engine [VoiceStart ''id-ID''] s2
               in case voiceStart p of
                    Resolved \<Rightarrow> s3
                  | Rejected m \<Rightarrow>
                      emit (OnListeningChange False)
                        (s3\<lparr>isListening := False, isProcessing := False,
                            error := Some (''Voice error: '' @ orUnknown m)\<rparr>)))"

definition stopListening :: "props \<Rightarrow> state \<Rightarrow> state" where
  "stopListening p s =
    (let s1 = emit (OnListeningChange False) (s\<lparr>isListening := False, isProcessing := False\<rparr>)
     in case os p of Web \<Rightarrow> s1 | Mobile \<Rightarrow> engine [VoiceStop] s1)"

definition toggleListening :: "props \<Rightarrow> state \<Rightarrow> state" where
  "toggleListening p s = (if isListening s then stopListening p s else startListening p s)"

text \<open>The button (lines 205 to 209): \<open>onPress={toggleListening}\<close>,
  \<open>disabled={!isEnabled || isProcessing}\<close>.\<close>

definition press :: "props \<Rightarrow> state \<Rightarrow> state" where
  "press p s = (if \<not> isEnabled p \<or> isProcessing s then s else toggleListening p s)"

text \<open>Which of the two functions a press calls: \<open>toggleListening\<close> chooses by
  \<open>isListening\<close>, and a disabled button calls neither.\<close>

datatype handler = StartListening | StopListening

definition toggleCalls :: "state \<Rightarrow> handler" where
  "toggleCalls s = (if isListening s then StopListening else StartListening)"

definition pressCalls :: "props \<Rightarrow> state \<Rightarrow> handler option" where
  "pressCalls p s = (if \<not> isEnabled p \<or> isProcessing s then None else Some (toggleCalls s))"

definition call :: "props \<Rightarrow> handler option \<Rightarrow> state \<Rightarrow> state" where
  "call p h s =
    (case h of
       None \<Rightarrow> s
     | Some StartListening \<Rightarrow> startListening p s
     | Some StopListening \<Rightarrow> stopListening p s)"

subsection \<open>Status text (lines 190 to 195 and 235 to 237)\<close>

text \<open>\<open>if (error)\<close> is false for \<open>null\<close> and for the empty string.\<close>

definition getStatusText :: "state \<Rightarrow> string" where
  "getStatusText s =
    (case error s of
       Some e \<Rightarrow> if e \<noteq> [] then e
                 else if isProcessing s then ''Memproses...''
                 else if isListening s then ''Mendengarkan...''
                 else ''Tekan untuk berbicara''
     | None \<Rightarrow> if isProcessing s then ''Memproses...''
               else if isListening s then ''Mendengarkan...''
               else ''Tekan untuk berbicara'')"

definition statusLine :: "props \<Rightarrow> state \<Rightarrow> string" where
  "statusLine p s = (if isEnabled p then getStatusText s else ''Voice tidak tersedia'')"

subsection \<open>The event loop\<close>

text \<open>The pending task that runs next: the one with the least due time, the one set
  first among equals.\<close>

fun earliest :: "timer list \<Rightarrow> timer option" where
  "earliest [] = None"
| "earliest (x # xs) =
    (case earliest xs of
       None \<Rightarrow> Some x
     | Some y \<Rightarrow> if fst y < fst x then Some y else Some x)"

fun weight :: "timer \<Rightarrow> nat" where
  "weight (d, ListenDone) = 2"
| "weight (d, ProcessDone) = 1"

lemma earliest_mem: "earliest ts = Some x \<Longrightarrow> x \<in> set ts"
  by (induction ts arbitrary: x) (auto split: option.splits if_splits)

lemma weight_remove1:
  "x \<in> set ts \<Longrightarrow> sum_list (map weight (remove1 x ts)) + weight x = sum_list (map weight ts)"
  by (induction ts) auto

lemma timers_fire:
  "sum_list (map weight (timers (fire p k s))) + weight (d, k)
     = sum_list (map weight (timers s)) + 2 * weight (d, k) - 1"
  by (cases k) (simp_all add: setTimeout_def emit_def Let_def)

text \<open>Time passes up to the instant \<open>t\<close>: every task due by then runs, in order, at its
  due time; a task set by a task that ran is pending like any other.\<close>

function run_until :: "props \<Rightarrow> nat \<Rightarrow> state \<Rightarrow> state" where
  "run_until p t s =
    (case earliest (timers s) of
       None \<Rightarrow> s\<lparr>now := max (now s) t\<rparr>
     | Some (d, k) \<Rightarrow>
         if d \<le> t
         then run_until p t
                (fire p k (s\<lparr>timers := remove1 (d, k) (timers s), now := max (now s) d\<rparr>))
         else s\<lparr>now := max (now s) t\<rparr>)"
  by pat_completeness auto

termination
proof (relation "measure (\<lambda>(p, t, s). sum_list (map weight (timers s)))")
  show "wf (measure (\<lambda>(p, t, s). sum_list (map weight (timers s))))"
    by simp
next
  fix p :: props and t :: nat and s :: state and x2 :: timer and d :: nat and k :: timer_kind
  assume e: "earliest (timers s) = Some x2" and x: "(d, k) = x2" and "d \<le> t"
  let ?s = "s\<lparr>timers := remove1 (d, k) (timers s), now := max (now s) d\<rparr>"
  have m: "(d, k) \<in> set (timers s)"
    using earliest_mem [OF e] x by simp
  have r: "sum_list (map weight (timers ?s)) + weight (d, k) = sum_list (map weight (timers s))"
    using weight_remove1 [OF m] by simp
  have f: "sum_list (map weight (timers (fire p k ?s))) + weight (d, k)
            = sum_list (map weight (timers ?s)) + 2 * weight (d, k) - 1"
    by (rule timers_fire)
  have w: "1 \<le> weight (d, k)"
    by (cases k) simp_all
  show "((p, t, fire p k ?s), (p, t, s))
          \<in> measure (\<lambda>(p, t, s). sum_list (map weight (timers s)))"
    using r f w by simp
qed

definition elapse :: "props \<Rightarrow> nat \<Rightarrow> state \<Rightarrow> state" where
  "elapse p ms s = run_until p (now s + ms) s"

declare run_until.simps [simp del]

subsection \<open>Events and runs\<close>

text \<open>What can happen to the mounted component: the button is pressed, time passes, the
  browser engine calls one of the three handlers set on a recognition object, the native
  engine calls one of the two handlers registered at mount. The browser handlers exist
  once \<open>startListening\<close> has made a recognition object; the native handlers are
  registered on a non-web platform only (lines 59 to 61).\<close>

datatype event =
    Press
  | Elapse nat
  | RecognitionResult "string list list option"
  | RecognitionError string
  | RecognitionEnd
  | SpeechResults "string list option"
  | SpeechError "string option option"

definition recognitionStarted :: "state \<Rightarrow> bool" where
  "recognitionStarted s = (RecognitionStart \<in> set (calls s))"

fun step :: "props \<Rightarrow> event \<Rightarrow> state \<Rightarrow> state" where
  "step p Press s = press p s"
| "step p (Elapse ms) s = elapse p ms s"
| "step p (RecognitionResult rs) s = (if recognitionStarted s then onresult rs s else s)"
| "step p (RecognitionError d) s = (if recognitionStarted s then onerror d s else s)"
| "step p RecognitionEnd s = (if recognitionStarted s then onend s else s)"
| "step p (SpeechResults v) s = (if os p = Mobile then onSpeechResults v s else s)"
| "step p (SpeechError e) s = (if os p = Mobile then onSpeechError e s else s)"

text \<open>A run is a list of events, each with the props of the render it happens in.\<close>

fun run :: "(props \<times> event) list \<Rightarrow> state \<Rightarrow> state" where
  "run [] s = s"
| "run ((p, ev) # evs) s = run evs (step p ev s)"

subsection \<open>Observations\<close>

definition nonIdle :: "state \<Rightarrow> bool" where
  "nonIdle s = (isListening s \<or> isProcessing s)"

fun listeningValue :: "notice \<Rightarrow> bool option" where
  "listeningValue (OnListeningChange b, _, _) = Some b"
| "listeningValue (OnVoiceResult _, _, _) = None"

text \<open>The arguments of the \<open>onListeningChange\<close> calls, in order.\<close>

definition changes :: "notice list \<Rightarrow> bool list" where
  "changes ns = List.map_filter listeningValue ns"

text \<open>The calls made between an earlier state and a later one.\<close>

definition fresh :: "state \<Rightarrow> state \<Rightarrow> notice list" where
  "fresh s s' = drop (length (notified s)) (notified s')"

text \<open>The value \<open>b\<close> occurs twice in a row.\<close>

fun repeats :: "bool \<Rightarrow> bool list \<Rightarrow> bool" where
  "repeats b (x # y # xs) = ((x = b \<and> y = b) \<or> repeats b (y # xs))"
| "repeats b _ = False"

text \<open>The invariant of every run: \<open>onListeningChange(true)\<close> has not been called twice
  in a row, and when the last call was with \<open>true\<close> the component is not idle.\<close>

definition steady :: "state \<Rightarrow> bool" where
  "steady s =
    (\<not> repeats True (changes (notified s))
     \<and> (changes (notified s) = [] \<or> last (changes (notified s)) = False \<or> nonIdle s))"

subsection \<open>The three environments\<close>

text \<open>In each of them \<open>Math.random()\<close> returns 0.5, which is \<open>2^52 * 2^-53\<close>.\<close>

definition simulated :: props where
  "simulated = \<lparr>isEnabled = True, os = Web, hasSpeechRecognition = False,
     voiceStart = Resolved, random = (\<lambda>n. (4503599627370496, 53))\<rparr>"

definition browser :: props where
  "browser = \<lparr>isEnabled = True, os = Web, hasSpeechRecognition = True,
     voiceStart = Resolved, random = (\<lambda>n. (4503599627370496, 53))\<rparr>"

definition native :: props where
  "native = \<lparr>isEnabled = True, os = Mobile, hasSpeechRecognition = False,
     voiceStart = Resolved, random = (\<lambda>n. (4503599627370496, 53))\<rparr>"

subsection \<open>The session states of the specification\<close>

text \<open>The specification names four states. The component has no such value: it has the
  two flags and the error, read in the order \<open>getStatusText\<close> reads them.\<close>

datatype SessionState = Idle | Listening | Processing | Error string

definition sessionState :: "state \<Rightarrow> SessionState" where
  "sessionState s =
    (case error s of
       Some e \<Rightarrow> if e \<noteq> [] then Error e
                 else if isProcessing s then Processing
                 else if isListening s then Listening else Idle
     | None \<Rightarrow> if isProcessing s then Processing
               else if isListening s then Listening else Idle)"

text \<open>The status text mapping as the specification words it.\<close>

fun spec_statusText :: "SessionState \<Rightarrow> string" where
  "spec_statusText (Error message) = message"
| "spec_statusText Processing = ''Memproses...''"
| "spec_statusText Listening = ''Mendengarkan...''"
| "spec_statusText Idle = ''Tekan untuk berbicara''"

section \<open>Basic facts\<close>

lemmas handler_defs = onSpeechResults_def onSpeechError_def onresult_def onerror_def onend_def
  startListening_def stopListening_def toggleListening_def press_def emit_def engine_def
  setTimeout_def Let_def

lemmas env_defs = simulated_def browser_def native_def initial_def

lemma run_until_idle:
  "earliest (timers s) = None \<Longrightarrow> run_until p t s = s\<lparr>now := max (now s) t\<rparr>"
  by (subst run_until.simps) simp

lemma run_until_later:
  "earliest (timers s) = Some (d, k) \<Longrightarrow> t < d \<Longrightarrow> run_until p t s = s\<lparr>now := max (now s) t\<rparr>"
  by (subst run_until.simps) simp

lemma run_until_due:
  "earliest (timers s) = Some (d, k) \<Longrightarrow> d \<le> t \<Longrightarrow>
     run_until p t s =
       run_until p t (fire p k (s\<lparr>timers := remove1 (d, k) (timers s), now := max (now s) d\<rparr>))"
  by (subst run_until.simps) simp


subsection \<open>One simulated session, step by step\<close>

lemma start_simulated:
  "isEnabled p \<Longrightarrow> os p = Web \<Longrightarrow> \<not> hasSpeechRecognition p \<Longrightarrow>
   startListening p s =
     s\<lparr>isListening := True, isProcessing := False, error := None,
       timers := timers s @ [(now s + 3000, ListenDone)],
       notified := notified s @ [(OnListeningChange True, True, False)]\<rparr>"
  by (simp add: handler_defs)

lemma elapse_listening:
  "timers s = [(d, ListenDone)] \<Longrightarrow> now s + ms < d \<Longrightarrow> elapse p ms s = s\<lparr>now := now s + ms\<rparr>"
  by (simp add: elapse_def run_until_later [of _ d ListenDone])

lemma elapse_processing:
  "timers s = [(d, ProcessDone)] \<Longrightarrow> now s + ms < d \<Longrightarrow> elapse p ms s = s\<lparr>now := now s + ms\<rparr>"
  by (simp add: elapse_def run_until_later [of _ d ProcessDone])

lemma elapse_listen_done:
  "timers s = [(d, ListenDone)] \<Longrightarrow> now s \<le> d \<Longrightarrow> d \<le> now s + ms \<Longrightarrow> now s + ms < d + 1000 \<Longrightarrow>
     elapse p ms s =
       s\<lparr>isListening := False, isProcessing := True, now := now s + ms,
         timers := [(d + 1000, ProcessDone)]\<rparr>"
  by (simp add: elapse_def run_until.simps setTimeout_def max_def)

lemma elapse_process_done:
  "timers s = [(d, ProcessDone)] \<Longrightarrow> now s \<le> d \<Longrightarrow> d \<le> now s + ms \<Longrightarrow>
     elapse p ms s =
       fire p ProcessDone (s\<lparr>timers := [], now := d\<rparr>) \<lparr>now := now s + ms\<rparr>"
  by (simp add: elapse_def run_until.simps emit_def Let_def max_def)


subsection \<open>The phrase that is drawn\<close>

lemma excess_bound: "n < 2 ^ (53 + k) \<Longrightarrow> excess n \<le> k"
proof (induction k arbitrary: n)
  case 0
  then show ?case by (subst excess.simps) simp
next
  case (Suc k)
  have "(2::nat) ^ (53 + Suc k) = 2 * 2 ^ (53 + k)"
    by (simp only: add_Suc_right power_Suc)
  then have "n < 2 * 2 ^ (53 + k)"
    using Suc.prems by (simp only:)
  then have "n div 2 < 2 ^ (53 + k)"
    by linarith
  then have "excess (n div 2) \<le> k" by (rule Suc.IH)
  then show ?case by (subst excess.simps) simp
qed

lemma round53_le: "round53 n \<le> n + 2 ^ excess n div 2"
proof -
  define sh where "sh = excess n"
  define q where "q = n div 2 ^ sh"
  define r where "r = n mod 2 ^ sh"
  have n: "n = q * 2 ^ sh + r"
    unfolding q_def r_def by (rule div_mult_mod_eq [symmetric])
  show ?thesis
  proof (cases "2 ^ sh < 2 * r \<or> (2 * r = 2 ^ sh \<and> odd q)")
    case True
    then have "round53 n = (q + 1) * 2 ^ sh"
      by (simp add: round53_def Let_def sh_def [symmetric] q_def [symmetric] r_def [symmetric])
    moreover have "(2::nat) ^ sh \<le> 2 * r" using True by auto
    then have "(2::nat) ^ sh \<le> r + 2 ^ sh div 2" by linarith
    ultimately show ?thesis
      unfolding sh_def [symmetric] using n by (simp add: algebra_simps)
  next
    case False
    then have "round53 n = q * 2 ^ sh"
      by (simp add: round53_def Let_def sh_def [symmetric] q_def [symmetric] r_def [symmetric])
    then show ?thesis using n by simp
  qed
qed

lemma floorTimes_six:
  assumes "unitDouble d"
  shows "floorTimes d 6 < 6"
proof -
  obtain m e where d: "d = (m, e)" by (cases d)
  have m: "m < 2 ^ 53" "m < 2 ^ e"
    using assms by (simp_all add: unitDouble_def d)
  have "m * 6 < 2 ^ 53 * 8"
    using m(1) by simp
  then have "m * 6 < 2 ^ (53 + 3)" by (simp add: power_add)
  then have "excess (m * 6) \<le> 3" by (rule excess_bound)
  then have "(2::nat) ^ excess (m * 6) \<le> 2 ^ 3"
    by (simp only: power_increasing_iff)
  then have h: "(2::nat) ^ excess (m * 6) div 2 \<le> 4" by simp
  have r: "round53 (m * 6) \<le> m * 6 + 4"
    using round53_le [of "m * 6"] h by linarith
  have "Suc m \<le> 2 ^ e" using m(2) by simp
  then have "Suc m * 6 \<le> 2 ^ e * 6" by (simp only: mult_le_mono1)
  then have "round53 (m * 6) < 6 * 2 ^ e" using r by simp
  then have "round53 (m * 6) div 2 ^ e < 6" by (rule less_mult_imp_div_less)
  then show ?thesis by (simp add: floorTimes_def d)
qed

lemma corpus_member:
  assumes "unitDouble d"
  shows "\<exists>t\<in>set VOICE_RESPONSES.
           js_index VOICE_RESPONSES (int (floorTimes d (length VOICE_RESPONSES))) = Some t"
proof -
  have len: "length VOICE_RESPONSES = 6"
    by (simp add: VOICE_RESPONSES_def)
  have less: "floorTimes d (length VOICE_RESPONSES) < length VOICE_RESPONSES"
    using floorTimes_six [OF assms] by (simp only: len)
  then have "VOICE_RESPONSES ! floorTimes d (length VOICE_RESPONSES) \<in> set VOICE_RESPONSES"
    by (rule nth_mem)
  moreover have "js_index VOICE_RESPONSES (int (floorTimes d (length VOICE_RESPONSES)))
                  = Some (VOICE_RESPONSES ! floorTimes d (length VOICE_RESPONSES))"
    using less by (simp add: js_index_def)
  ultimately show ?thesis by blast
qed

text \<open>The draw 0.5 gives the fourth phrase.\<close>

lemma excess_half_six: "excess 27021597764222976 = 2"
  apply (subst excess.simps, simp)
  apply (subst excess.simps, simp)
  apply (subst excess.simps, simp)
  done

lemma half_pick:
  "js_index VOICE_RESPONSES (int (floorTimes (4503599627370496, 53) (length VOICE_RESPONSES)))
     = Some ''suara mesin kasar''"
proof -
  have len: "length VOICE_RESPONSES = 6"
    by (simp add: VOICE_RESPONSES_def)
  have three: "floorTimes (4503599627370496, 53) 6 = 3"
    by (simp add: floorTimes_def round53_def Let_def excess_half_six)
  have "js_index VOICE_RESPONSES (int 3) = Some ''suara mesin kasar''"
    by (simp add: js_index_def VOICE_RESPONSES_def)
  then show ?thesis
    by (simp only: len three)
qed

text \<open>The draw 0.8333333333333333, the double \<open>7505999378950826 * 2^-53\<close>: the exact
  product with 6 is below 5, the rounded one is 5.\<close>

lemma excess_tie: "excess 45035996273704956 = 3"
  apply (subst excess.simps, simp)
  apply (subst excess.simps, simp)
  apply (subst excess.simps, simp)
  apply (subst excess.simps, simp)
  done

lemma rounded_product:
  "floorTimes (7505999378950826, 53) 6 = 5 \<and> 7505999378950826 * 6 div 2 ^ 53 = (4::nat)"
  by (simp add: floorTimes_def round53_def Let_def excess_tie)

lemma half_unit: "unitDouble (4503599627370496, 53)"
  by (simp add: unitDouble_def)

subsection \<open>The calls of onListeningChange along a run\<close>

lemma changes_Nil: "changes [] = []"
  by (simp add: changes_def map_filter_def)

lemma changes_Cons:
  "changes ((OnListeningChange b, x, y) # ns) = b # changes ns"
  "changes ((OnVoiceResult r, x, y) # ns) = changes ns"
  by (simp_all add: changes_def map_filter_def)

lemma changes_append: "changes (a @ b) = changes a @ changes b"
  by (simp add: changes_def map_filter_def)

lemma repeats_append:
  "repeats b (xs @ ys) =
    (repeats b xs \<or> repeats b ys \<or> (xs \<noteq> [] \<and> ys \<noteq> [] \<and> last xs = b \<and> hd ys = b))"
proof (induction xs)
  case Nil
  show ?case by simp
next
  case (Cons x xs)
  show ?case
  proof (cases xs)
    case Nil
    then show ?thesis by (cases ys) auto
  next
    case (Cons y zs)
    then show ?thesis using Cons.IH by auto
  qed
qed

lemmas changes_simps = changes_Nil changes_Cons changes_append repeats_append

lemma steady_initial: "steady initial"
  by (simp add: steady_def initial_def changes_Nil)

lemma steady_frame: "steady (s\<lparr>timers := ts, now := n\<rparr>) = steady s"
  by (simp add: steady_def nonIdle_def)

lemma steady_now: "steady (s\<lparr>now := n\<rparr>) = steady s"
  by (simp add: steady_def nonIdle_def)

lemma steady_fire: "steady s \<Longrightarrow> steady (fire p k s)"
  by (cases k) (auto simp add: steady_def nonIdle_def setTimeout_def emit_def Let_def changes_simps)

lemma steady_stop: "steady s \<Longrightarrow> steady (stopListening p s)"
  by (cases "os p") (auto simp add: steady_def nonIdle_def handler_defs changes_simps)

lemma steady_start: "steady s \<Longrightarrow> \<not> nonIdle s \<Longrightarrow> steady (startListening p s)"
  by (cases "os p"; cases "voiceStart p")
     (auto simp add: steady_def nonIdle_def handler_defs changes_simps)

lemma steady_press: "steady s \<Longrightarrow> steady (press p s)"
  using steady_stop [of s p] steady_start [of s p]
  by (auto simp add: press_def toggleListening_def nonIdle_def)

lemma steady_onresult: "steady s \<Longrightarrow> steady (onresult rs s)"
  by (auto simp add: steady_def nonIdle_def handler_defs changes_simps split: option.splits list.splits)

lemma steady_onerror: "steady s \<Longrightarrow> steady (onerror d s)"
  by (auto simp add: steady_def nonIdle_def handler_defs changes_simps)

lemma steady_onend: "steady s \<Longrightarrow> steady (onend s)"
  by (auto simp add: steady_def nonIdle_def handler_defs changes_simps)

lemma steady_onSpeechResults: "steady s \<Longrightarrow> steady (onSpeechResults v s)"
  by (auto simp add: steady_def nonIdle_def handler_defs changes_simps split: option.splits)

lemma steady_onSpeechError: "steady s \<Longrightarrow> steady (onSpeechError e s)"
  by (auto simp add: steady_def nonIdle_def handler_defs changes_simps)

lemma steady_run_until: "steady s \<Longrightarrow> steady (run_until p t s)"
proof (induction p t s rule: run_until.induct)
  case (1 p t s)
  show ?case
  proof (cases "earliest (timers s)")
    case None
    then show ?thesis
      using "1.prems" by (simp add: run_until_idle steady_now)
  next
    case (Some x)
    obtain d k where x: "x = (d, k)" by (cases x)
    show ?thesis
    proof (cases "d \<le> t")
      case True
      have "steady (fire p k (s\<lparr>timers := remove1 (d, k) (timers s), now := max (now s) d\<rparr>))"
        using "1.prems" by (intro steady_fire) (simp add: steady_frame)
      then have "steady (run_until p t
          (fire p k (s\<lparr>timers := remove1 (d, k) (timers s), now := max (now s) d\<rparr>)))"
        by (rule "1.IH" [OF Some x [symmetric] True])
      then show ?thesis
        using run_until_due [of s d k t p] Some x True by simp
    next
      case False
      then show ?thesis
        using "1.prems" run_until_later [of s d k t p] Some x by (simp add: steady_now)
    qed
  qed
qed

lemma steady_step: "steady s \<Longrightarrow> steady (step p ev s)"
  by (cases ev)
     (simp_all add: steady_press steady_run_until elapse_def steady_onresult steady_onerror
        steady_onend steady_onSpeechResults steady_onSpeechError)

lemma steady_run: "steady s \<Longrightarrow> steady (run evs s)"
  by (induction evs arbitrary: s) (auto simp add: steady_step)

lemma timers_fire_false:
  "\<exists>ns. notified (fire p k s) = notified s @ ns \<and> True \<notin> set (changes ns)
        \<and> (nonIdle s \<and> \<not> nonIdle (fire p k s) \<longrightarrow> False \<in> set (changes ns))"
  by (cases k) (auto simp add: nonIdle_def setTimeout_def emit_def Let_def changes_simps)

lemma run_until_false:
  "\<exists>ns. notified (run_until p t s) = notified s @ ns \<and> True \<notin> set (changes ns)
        \<and> (nonIdle s \<and> \<not> nonIdle (run_until p t s) \<longrightarrow> False \<in> set (changes ns))"
proof (induction p t s rule: run_until.induct)
  case (1 p t s)
  show ?case
  proof (cases "earliest (timers s)")
    case None
    then show ?thesis
      by (auto simp add: run_until_idle nonIdle_def changes_Nil)
  next
    case (Some x)
    obtain d k where x: "x = (d, k)" by (cases x)
    show ?thesis
    proof (cases "d \<le> t")
      case True
      define s0 where "s0 = s\<lparr>timers := remove1 (d, k) (timers s), now := max (now s) d\<rparr>"
      define s1 where "s1 = fire p k s0"
      obtain ns0 where ns0: "notified s1 = notified s0 @ ns0" "True \<notin> set (changes ns0)"
        "nonIdle s0 \<and> \<not> nonIdle s1 \<longrightarrow> False \<in> set (changes ns0)"
        unfolding s1_def using timers_fire_false [of p k s0] by blast
      obtain ns1 where ns1: "notified (run_until p t s1) = notified s1 @ ns1"
        "True \<notin> set (changes ns1)"
        "nonIdle s1 \<and> \<not> nonIdle (run_until p t s1) \<longrightarrow> False \<in> set (changes ns1)"
        using "1.IH" [OF Some x [symmetric] True] unfolding s1_def s0_def by blast
      have r: "run_until p t s = run_until p t s1"
        unfolding s1_def s0_def using run_until_due [of s d k t p] Some x True by simp
      have f: "nonIdle s0 = nonIdle s" "notified s0 = notified s"
        by (simp_all add: s0_def nonIdle_def)
      have "notified (run_until p t s) = notified s @ (ns0 @ ns1)"
        using r ns0(1) ns1(1) f(2) by simp
      moreover have "True \<notin> set (changes (ns0 @ ns1))"
        using ns0(2) ns1(2) by (simp add: changes_append)
      moreover have "nonIdle s \<and> \<not> nonIdle (run_until p t s) \<longrightarrow> False \<in> set (changes (ns0 @ ns1))"
        using r ns0(3) ns1(3) f(1) by (auto simp add: changes_append)
      ultimately show ?thesis by blast
    next
      case False
      then show ?thesis
        using run_until_later [of s d k t p] Some x by (auto simp add: nonIdle_def changes_Nil)
    qed
  qed
qed

lemma leaving_fires_false:
  "nonIdle s \<Longrightarrow> \<not> nonIdle (step p ev s) \<Longrightarrow> False \<in> set (changes (fresh s (step p ev s)))"
proof (cases ev)
  case (Elapse ms)
  assume a: "nonIdle s" "\<not> nonIdle (step p ev s)"
  obtain ns where ns: "notified (elapse p ms s) = notified s @ ns"
    "nonIdle s \<and> \<not> nonIdle (elapse p ms s) \<longrightarrow> False \<in> set (changes ns)"
    unfolding elapse_def using run_until_false [of p "now s + ms" s] by blast
  then show ?thesis using a Elapse by (simp add: fresh_def)
qed (cases "os p", auto simp add: nonIdle_def fresh_def handler_defs changes_simps
      split: option.splits list.splits if_splits)+


lemma entering_fires_true:
  "\<not> nonIdle s \<Longrightarrow> nonIdle (step p ev s) \<Longrightarrow> \<forall>ms. ev \<noteq> Elapse ms \<Longrightarrow>
     changes (fresh s (step p ev s)) = [True]"
  by (cases ev; cases "os p"; cases "voiceStart p")
     (auto simp add: nonIdle_def fresh_def handler_defs changes_simps
        split: option.splits list.splits if_splits)

lemma true_only_by_start:
  "True \<in> set (changes (fresh s (step p ev s))) \<Longrightarrow> ev = Press \<and> \<not> nonIdle s \<and> isEnabled p"
proof (cases ev)
  case (Elapse ms)
  assume a: "True \<in> set (changes (fresh s (step p ev s)))"
  obtain ns where ns: "notified (elapse p ms s) = notified s @ ns" "True \<notin> set (changes ns)"
    unfolding elapse_def using run_until_false [of p "now s + ms" s] by blast
  then show ?thesis using a Elapse by (simp add: fresh_def)
qed (cases "os p"; cases "voiceStart p", auto simp add: nonIdle_def fresh_def handler_defs changes_simps
      split: option.splits list.splits if_splits)+

subsection \<open>What a press calls, and what keeps the error\<close>

lemma press_calls: "press p s = call p (pressCalls p s) s"
  by (simp add: press_def toggleListening_def call_def pressCalls_def toggleCalls_def)

lemma error_fire: "error (fire p k s) = error s"
  by (cases k) (simp_all add: setTimeout_def emit_def Let_def)

lemma error_run_until: "error (run_until p t s) = error s"
proof (induction p t s rule: run_until.induct)
  case (1 p t s)
  show ?case
  proof (cases "earliest (timers s)")
    case None
    then show ?thesis by (simp add: run_until_idle)
  next
    case (Some x)
    obtain d k where x: "x = (d, k)" by (cases x)
    show ?thesis
    proof (cases "d \<le> t")
      case True
      have "error (run_until p t
          (fire p k (s\<lparr>timers := remove1 (d, k) (timers s), now := max (now s) d\<rparr>)))
        = error (fire p k (s\<lparr>timers := remove1 (d, k) (timers s), now := max (now s) d\<rparr>))"
        by (rule "1.IH" [OF Some x [symmetric] True])
      then show ?thesis
        using run_until_due [of s d k t p] Some x True by (simp add: error_fire)
    next
      case False
      then show ?thesis
        using run_until_later [of s d k t p] Some x by simp
    qed
  qed
qed

subsection \<open>A simulated session with no timer pending from an earlier one\<close>

text \<open>From a state with no pending timer, with no speech engine on the web:
  \<open>startListening\<close> gives Listening; nothing happens before 3000 ms; at 3000 ms the
  component is Processing, with no callback so far; nothing happens for less than
  another 1000 ms; at 1000 ms exactly one \<open>onVoiceResult\<close> call is made, with a phrase of
  the corpus of six, followed by \<open>onListeningChange(false)\<close>, and the component is Idle.
  \<open>Math.random()\<close> returns a double below 1.\<close>

lemma clean_session_timing:
  assumes t: "timers s = []"
    and e: "isEnabled p" "os p = Web" "\<not> hasSpeechRecognition p"
    and r: "unitDouble (random p (draws s))"
  shows "let s0 = startListening p s; s1 = elapse p 3000 s0; s2 = elapse p 1000 s1 in
     sessionState s0 = Listening
     \<and> (\<forall>d<3000. sessionState (elapse p d s0) = Listening \<and> fresh s0 (elapse p d s0) = [])
     \<and> sessionState s1 = Processing \<and> fresh s0 s1 = []
     \<and> (\<forall>d<1000. sessionState (elapse p d s1) = Processing \<and> fresh s1 (elapse p d s1) = [])
     \<and> (\<exists>t\<in>set VOICE_RESPONSES.
          fresh s1 s2 = [(OnVoiceResult (Some t), False, True), (OnListeningChange False, False, False)])
     \<and> sessionState s2 = Idle \<and> timers s2 = []
     \<and> set VOICE_RESPONSES =
         {''bagaimana cara ganti oli'', ''kenapa mesin overheat'', ''cara check aki mobil'',
          ''suara mesin kasar'', ''rem blong penyebabnya'', ''ac mobil tidak dingin''}"
proof -
  define s0 where "s0 = startListening p s"
  define s1 where "s1 = elapse p 3000 s0"
  define s2 where "s2 = elapse p 1000 s1"
  have s0: "s0 = s\<lparr>isListening := True, isProcessing := False, error := None,
       timers := [(now s + 3000, ListenDone)],
       notified := notified s @ [(OnListeningChange True, True, False)]\<rparr>"
    unfolding s0_def using start_simulated [OF e, of s] t by simp
  have a: "sessionState s0 = Listening"
    by (simp add: s0 sessionState_def)
  have b: "\<forall>d<3000. sessionState (elapse p d s0) = Listening \<and> fresh s0 (elapse p d s0) = []"
  proof (intro allI impI)
    fix d :: nat assume "d < 3000"
    then have "elapse p d s0 = s0\<lparr>now := now s0 + d\<rparr>"
      by (intro elapse_listening [of _ "now s + 3000"]) (simp_all add: s0)
    then show "sessionState (elapse p d s0) = Listening \<and> fresh s0 (elapse p d s0) = []"
      by (simp add: s0 sessionState_def fresh_def)
  qed
  have s1: "s1 = s0\<lparr>isListening := False, isProcessing := True, now := now s0 + 3000,
         timers := [(now s + 3000 + 1000, ProcessDone)]\<rparr>"
    unfolding s1_def by (intro elapse_listen_done) (simp_all add: s0)
  have c: "sessionState s1 = Processing \<and> fresh s0 s1 = []"
    by (simp add: s1 s0 sessionState_def fresh_def)
  have d: "\<forall>d<1000. sessionState (elapse p d s1) = Processing \<and> fresh s1 (elapse p d s1) = []"
  proof (intro allI impI)
    fix d :: nat assume "d < 1000"
    then have "elapse p d s1 = s1\<lparr>now := now s1 + d\<rparr>"
      by (intro elapse_processing [of _ "now s + 3000 + 1000"]) (simp_all add: s1 s0)
    then show "sessionState (elapse p d s1) = Processing \<and> fresh s1 (elapse p d s1) = []"
      by (simp add: s1 s0 sessionState_def fresh_def)
  qed
  have s2: "s2 = fire p ProcessDone (s1\<lparr>timers := [], now := now s + 3000 + 1000\<rparr>)
                   \<lparr>now := now s1 + 1000\<rparr>"
    unfolding s2_def by (intro elapse_process_done) (simp_all add: s1 s0)
  obtain t where t: "t \<in> set VOICE_RESPONSES"
    "js_index VOICE_RESPONSES (int (floorTimes (random p (draws s)) (length VOICE_RESPONSES)))
       = Some t"
    using corpus_member [OF r] by blast
  have f: "fresh s1 s2 = [(OnVoiceResult (Some t), False, True), (OnListeningChange False, False, False)]"
    using t(2) by (simp add: s2 s1 s0 fresh_def emit_def Let_def)
  have g: "sessionState s2 = Idle \<and> timers s2 = []"
    by (simp add: s2 s1 s0 sessionState_def emit_def Let_def)
  have h: "set VOICE_RESPONSES =
         {''bagaimana cara ganti oli'', ''kenapa mesin overheat'', ''cara check aki mobil'',
          ''suara mesin kasar'', ''rem blong penyebabnya'', ''ac mobil tidak dingin''}"
    by (simp add: VOICE_RESPONSES_def)
  show ?thesis
    unfolding Let_def s0_def [symmetric] s1_def [symmetric] s2_def [symmetric]
    using a b c d f g h t(1) by blast
qed

text \<open>In such a session \<open>onVoiceResult\<close> is called while \<open>isProcessing\<close> is still true
  and before \<open>onListeningChange(false)\<close>. The second timer always calls \<open>onVoiceResult\<close>
  with the flags as it finds them, and \<open>onListeningChange(false)\<close> after it; the browser
  and the native result handlers call \<open>onListeningChange(false)\<close> first, with both flags
  false already, and \<open>onVoiceResult\<close> after it.\<close>

lemma clean_session_order:
  "(timers s = [] \<and> isEnabled p \<and> os p = Web \<and> \<not> hasSpeechRecognition p \<longrightarrow>
      (\<exists>r. fresh s (elapse p 1000 (elapse p 3000 (startListening p s)))
            = [(OnListeningChange True, True, False),
               (OnVoiceResult r, False, True),
               (OnListeningChange False, False, False)]))
   \<and> (\<exists>r. fresh s (fire p ProcessDone s)
            = [(OnVoiceResult r, isListening s, isProcessing s),
               (OnListeningChange False, isListening s, False)])
   \<and> fresh s (onresult (Some ((t # ts) # rest)) s)
       = [(OnListeningChange False, False, False), (OnVoiceResult (Some t), False, False)]
   \<and> fresh s (onSpeechResults (Some (t # ts)) s)
       = [(OnListeningChange False, False, False), (OnVoiceResult (Some t), False, False)]"
proof -
  have a: "\<exists>r. fresh s (elapse p 1000 (elapse p 3000 (startListening p s)))
            = [(OnListeningChange True, True, False),
               (OnVoiceResult r, False, True),
               (OnListeningChange False, False, False)]"
    if t: "timers s = []" and e: "isEnabled p" "os p = Web" "\<not> hasSpeechRecognition p"
  proof -
    define s0 where "s0 = startListening p s"
    have s0: "s0 = s\<lparr>isListening := True, isProcessing := False, error := None,
         timers := [(now s + 3000, ListenDone)],
         notified := notified s @ [(OnListeningChange True, True, False)]\<rparr>"
      unfolding s0_def using start_simulated [OF e, of s] t by simp
    define s1 where "s1 = elapse p 3000 s0"
    have s1: "s1 = s0\<lparr>isListening := False, isProcessing := True, now := now s0 + 3000,
           timers := [(now s + 3000 + 1000, ProcessDone)]\<rparr>"
      unfolding s1_def by (intro elapse_listen_done) (simp_all add: s0)
    have s2: "elapse p 1000 s1 =
        fire p ProcessDone (s1\<lparr>timers := [], now := now s + 3000 + 1000\<rparr>) \<lparr>now := now s1 + 1000\<rparr>"
      by (intro elapse_process_done) (simp_all add: s1 s0)
    show ?thesis
      unfolding s0_def [symmetric] s1_def [symmetric] s2
      by (simp add: s1 s0 fresh_def emit_def Let_def)
  qed
  have b: "\<exists>r. fresh s (fire p ProcessDone s)
            = [(OnVoiceResult r, isListening s, isProcessing s),
               (OnListeningChange False, isListening s, False)]"
    by (simp add: fresh_def emit_def Let_def)
  have c: "fresh s (onresult (Some ((t # ts) # rest)) s)
       = [(OnListeningChange False, False, False), (OnVoiceResult (Some t), False, False)]"
    by (simp add: fresh_def handler_defs)
  have d: "fresh s (onSpeechResults (Some (t # ts)) s)
       = [(OnListeningChange False, False, False), (OnVoiceResult (Some t), False, False)]"
    by (simp add: fresh_def handler_defs js_index_def)
  show ?thesis using a b c d by blast
qed

section \<open>The claims\<close>

subsection \<open>C1: stopping before any timer fires\<close>

text \<open>C1 says that after a start followed at once by a stop no \<open>onVoiceResult\<close> call is
  ever made, and that no result of the stopped adapter reaches the controller. The
  component keeps no handle of its two timers and \<open>stopListening\<close> clears none, and on
  the web it never stops the recognition object either. In the simulated environment,
  two presses (start, stop) followed by 3000 ms and 1000 ms deliver a phrase of the
  corpus; in the browser environment a result of the recognition object that was
  started before the stop is forwarded after it.\<close>

theorem late_result_after_stop:
  "fresh (run [(simulated, Press), (simulated, Press)] initial)
         (run [(simulated, Press), (simulated, Press), (simulated, Elapse 3000), (simulated, Elapse 1000)] initial)
     = [(OnVoiceResult (Some ''suara mesin kasar''), False, True), (OnListeningChange False, False, False)]
   \<and> fresh (run [(browser, Press), (browser, Press)] initial)
         (run [(browser, Press), (browser, Press), (browser, RecognitionResult (Some [[''rem blong'']]))] initial)
     = [(OnListeningChange False, False, False), (OnVoiceResult (Some ''rem blong''), False, False)]"
  by (simp add: fresh_def recognitionStarted_def handler_defs env_defs elapse_def run_until.simps
      half_pick)

subsection \<open>C2: results without text, results twice\<close>




subsection \<open>C3: no start while Listening or Processing\<close>



subsection \<open>C4: no stop while Idle\<close>



subsection \<open>C5: when onListeningChange is called\<close>

text \<open>C5 as stated (never the same value twice in a row) fails: in the browser
  environment a result followed by the end of the recognition calls
  \<open>onListeningChange(false)\<close> twice in a row.\<close>

theorem listening_change_repeats_counterexample:
  "changes (notified (run [(browser, Press),
                           (browser, RecognitionResult (Some [[''rem blong'']])),
                           (browser, RecognitionEnd)] initial))
     = [True, False, False]
   \<and> repeats False (changes (notified (run [(browser, Press),
                           (browser, RecognitionResult (Some [[''rem blong'']])),
                           (browser, RecognitionEnd)] initial)))"
  by (simp add: recognitionStarted_def handler_defs env_defs changes_simps)

text \<open>C5, amended: along every run of presses, elapsed time and engine events from the
  initial state, \<open>onListeningChange(true)\<close> is never called twice in a row. A step that
  takes the component from Listening or Processing to Idle calls
  \<open>onListeningChange(false)\<close>; a step other than the passing of time that takes it from
  Idle to Listening or Processing calls \<open>onListeningChange(true)\<close>, once, and nothing
  else; and \<open>onListeningChange(true)\<close> is called only by a press, when the component is
  enabled and Idle. (\<open>onListeningChange(false)\<close> is also called when the component is
  Idle already, so \<open>false\<close> can repeat.)\<close>

theorem listening_change_contract:
  "\<not> repeats True (changes (notified (run evs initial)))
   \<and> (nonIdle s \<and> \<not> nonIdle (step p ev s) \<longrightarrow> False \<in> set (changes (fresh s (step p ev s))))
   \<and> (\<not> nonIdle s \<and> nonIdle (step p ev s) \<and> (\<forall>ms. ev \<noteq> Elapse ms)
        \<longrightarrow> changes (fresh s (step p ev s)) = [True])
   \<and> (True \<in> set (changes (fresh s (step p ev s))) \<longrightarrow> ev = Press \<and> \<not> nonIdle s \<and> isEnabled p)"
proof -
  have "steady (run evs initial)"
    by (rule steady_run [OF steady_initial])
  then have "\<not> repeats True (changes (notified (run evs initial)))"
    by (simp add: steady_def)
  then show ?thesis
    using leaving_fires_false [of s p ev] entering_fires_true [of s p ev]
      true_only_by_start [of s p ev]
    by blast
qed

text \<open>The amended C5 at a browser run with a result, an end and a second press, at the
  end of a recognition while Listening, and at a press when Idle.\<close>

theorem listening_change_contract_witness:
  "\<not> repeats True (changes (notified (run [(browser, Press),
                           (browser, RecognitionResult (Some [[''rem blong'']])),
                           (browser, RecognitionEnd), (browser, Press)] initial)))
   \<and> nonIdle (startListening browser initial)
   \<and> \<not> nonIdle (step browser RecognitionEnd (startListening browser initial))
   \<and> False \<in> set (changes (fresh (startListening browser initial)
                        (step browser RecognitionEnd (startListening browser initial))))
   \<and> \<not> nonIdle initial \<and> nonIdle (step browser Press initial)
   \<and> changes (fresh initial (step browser Press initial)) = [True]
   \<and> True \<in> set (changes (fresh initial (step browser Press initial)))
   \<and> isEnabled browser"
  using listening_change_contract [of "[(browser, Press),
                           (browser, RecognitionResult (Some [[''rem blong'']])),
                           (browser, RecognitionEnd), (browser, Press)]"
          "startListening browser initial" browser RecognitionEnd]
    listening_change_contract [of "[]" initial browser Press]
  by (simp add: nonIdle_def fresh_def recognitionStarted_def handler_defs env_defs changes_simps)

subsection \<open>C6: the timing of the simulation\<close>

text \<open>C6 says that a start is followed by Processing after exactly 3000 ms and by
  exactly one \<open>onVoiceResult\<close> call after 1000 ms more. A timer of a session that was
  stopped is still pending (see C1) and breaks both. After start, stop, 500 ms and a
  second start, the component is Processing 2500 ms after the second start. After
  start, stop and a second start at once, the 1000 ms that follow the 3000 ms bring two
  \<open>onVoiceResult\<close> calls.\<close>

theorem stale_timer_breaks_timing:
  "sessionState (run [(simulated, Press), (simulated, Press), (simulated, Elapse 500),
                      (simulated, Press)] initial) = Listening
   \<and> sessionState (run [(simulated, Press), (simulated, Press), (simulated, Elapse 500),
                      (simulated, Press), (simulated, Elapse 2500)] initial) = Processing
   \<and> sessionState (run [(simulated, Press), (simulated, Press), (simulated, Press)] initial)
       = Listening
   \<and> sessionState (run [(simulated, Press), (simulated, Press), (simulated, Press),
                      (simulated, Elapse 3000)] initial) = Processing
   \<and> fresh (run [(simulated, Press), (simulated, Press), (simulated, Press),
                 (simulated, Elapse 3000)] initial)
          (run [(simulated, Press), (simulated, Press), (simulated, Press),
                 (simulated, Elapse 3000), (simulated, Elapse 1000)] initial)
       = [(OnVoiceResult (Some ''suara mesin kasar''), False, True),
          (OnListeningChange False, False, False),
          (OnVoiceResult (Some ''suara mesin kasar''), False, False),
          (OnListeningChange False, False, False)]"
  by (simp add: fresh_def sessionState_def handler_defs env_defs elapse_def run_until.simps
      half_pick)

subsection \<open>C7: error messages\<close>

text \<open>C7 as stated (the status text is \<open>"Voice error: " + d\<close> for every detail \<open>d\<close>)
  fails at the empty detail on the native path, where \<open>|| 'Unknown error'\<close> replaces
  it.\<close>

theorem error_detail_empty_counterexample:
  "getStatusText (onSpeechError (Some (Some [])) (startListening native initial))
     = ''Voice error: Unknown error''
   \<and> getStatusText (onSpeechError (Some (Some [])) (startListening native initial))
     \<noteq> ''Voice error: '' @ []"
  by (simp add: getStatusText_def handler_defs env_defs orUnknown_def optMessage_def)

text \<open>C7, amended: after a browser error with detail \<open>d\<close> the status text is
  \<open>"Voice error: " + d\<close>; after a native error (the error handler, or a rejected start)
  with a non-empty message \<open>d\<close> it is \<open>"Voice error: " + d\<close> too; after a native error with
  a missing or an empty message it is \<open>"Voice error: Unknown error"\<close>.\<close>

theorem error_normalization:
  "getStatusText (onerror d s) = ''Voice error: '' @ d
   \<and> (d \<noteq> [] \<longrightarrow> getStatusText (onSpeechError (Some (Some d)) s) = ''Voice error: '' @ d)
   \<and> (d \<noteq> [] \<and> isEnabled p \<and> os p = Mobile \<and> voiceStart p = Rejected (Some d)
        \<longrightarrow> getStatusText (startListening p s) = ''Voice error: '' @ d)
   \<and> (optMessage e = None \<or> optMessage e = Some []
        \<longrightarrow> getStatusText (onSpeechError e s) = ''Voice error: Unknown error'')
   \<and> (isEnabled p \<and> os p = Mobile \<and> (voiceStart p = Rejected None \<or> voiceStart p = Rejected (Some []))
        \<longrightarrow> getStatusText (startListening p s) = ''Voice error: Unknown error'')"
  by (auto simp add: getStatusText_def handler_defs orUnknown_def optMessage_def)

text \<open>The amended C7 at the message \<open>permission denied\<close> and at a missing message.\<close>

theorem error_normalization_witness:
  "getStatusText (onerror ''permission denied'' initial) = ''Voice error: permission denied''
   \<and> getStatusText (onSpeechError (Some (Some ''permission denied'')) initial)
       = ''Voice error: permission denied''
   \<and> getStatusText (startListening (native\<lparr>voiceStart := Rejected (Some ''permission denied'')\<rparr>) initial)
       = ''Voice error: permission denied''
   \<and> getStatusText (onSpeechError None initial) = ''Voice error: Unknown error''
   \<and> getStatusText (startListening (native\<lparr>voiceStart := Rejected None\<rparr>) initial)
       = ''Voice error: Unknown error''"
  using error_normalization [of "''permission denied''" initial
      "native\<lparr>voiceStart := Rejected (Some ''permission denied'')\<rparr>" None]
    error_normalization [of "''permission denied''" initial
      "native\<lparr>voiceStart := Rejected None\<rparr>" None]
  by (simp add: native_def optMessage_def)

subsection \<open>C8: the status text\<close>

text \<open>C8: \<open>getStatusText\<close> is the mapping of the specification applied to the session
  state that the flags and the error stand for, the error read first, then
  \<open>isProcessing\<close>, then \<open>isListening\<close>.\<close>

theorem status_text_mapping: "getStatusText s = spec_statusText (sessionState s)"
  by (simp add: getStatusText_def sessionState_def split: option.splits)

subsection \<open>C9: a disabled start request\<close>

text \<open>C9: when \<open>isEnabled\<close> is false the button is disabled, so a press calls neither
  function and leaves every component of the state as it is, the stored error
  included; no callback is made. The status line is the fixed string
  \<open>Voice tidak tersedia\<close> before and after every event, and no event takes a stored
  error away while the component is disabled.\<close>

theorem disabled_press_ignored:
  "\<not> isEnabled p \<Longrightarrow>
     pressCalls p s = None
     \<and> step p Press s = s
     \<and> statusLine p s = ''Voice tidak tersedia''
     \<and> statusLine p (step p ev s) = ''Voice tidak tersedia''
     \<and> (error s \<noteq> None \<longrightarrow> error (step p ev s) \<noteq> None)"
  by (cases ev)
     (auto simp add: pressCalls_def press_def statusLine_def elapse_def error_run_until
        handler_defs split: option.splits list.splits)

text \<open>C9 at the state after a browser error: the disabled press changes nothing, and
  the message is shown again once the component is enabled.\<close>

theorem disabled_press_ignored_witness:
  "\<not> isEnabled (browser\<lparr>isEnabled := False\<rparr>)
   \<and> error (onerror ''network'' (startListening browser initial)) = Some ''Voice error: network''
   \<and> step (browser\<lparr>isEnabled := False\<rparr>) Press (onerror ''network'' (startListening browser initial))
       = onerror ''network'' (startListening browser initial)
   \<and> statusLine (browser\<lparr>isEnabled := False\<rparr>) (onerror ''network'' (startListening browser initial))
       = ''Voice tidak tersedia''
   \<and> statusLine browser
        (step (browser\<lparr>isEnabled := False\<rparr>) Press (onerror ''network'' (startListening browser initial)))
       = ''Voice error: network''"
  using disabled_press_ignored [of "browser\<lparr>isEnabled := False\<rparr>"
      "onerror ''network'' (startListening browser initial)" Press]
  by (simp add: statusLine_def getStatusText_def handler_defs env_defs)

subsection \<open>C10: the order of the two callbacks\<close>

text \<open>C10 says that every simulated session delivers its result while the component is
  still Processing and before \<open>onListeningChange(false)\<close>. A timer of a session that was
  stopped is still pending (see C1) and breaks it. After start, stop, 500 ms and a
  second start, the timers of the stopped session run at 3000 ms and 4000 ms and those
  of the second session at 3500 ms and 4500 ms: the result of the second session is
  delivered with both flags false, after the \<open>onListeningChange(false)\<close> of the first.\<close>

theorem stale_timer_breaks_order:
  "fresh (run [(simulated, Press), (simulated, Press), (simulated, Elapse 500),
               (simulated, Press)] initial)
         (run [(simulated, Press), (simulated, Press), (simulated, Elapse 500),
               (simulated, Press), (simulated, Elapse 4000)] initial)
     = [(OnVoiceResult (Some ''suara mesin kasar''), False, True),
        (OnListeningChange False, False, False),
        (OnVoiceResult (Some ''suara mesin kasar''), False, False),
        (OnListeningChange False, False, False)]
   \<and> timers (run [(simulated, Press), (simulated, Press), (simulated, Elapse 500),
               (simulated, Press)] initial) = [(3000, ListenDone), (3500, ListenDone)]"
  by (simp add: fresh_def handler_defs env_defs elapse_def run_until.simps half_pick)

end
